theory Spec2Isabelle
  imports Main "HOL-Library.Sublist"
begin

section \<open>Python values used by the handlers\<close>

text \<open>
  Python strings are modelled as \<^typ>\<open>string\<close>, one \<^typ>\<open>char\<close> per code point,
  which covers the code points 0 to 255. A nullable column or an optional argument
  is an \<^typ>\<open>'a option\<close>, with \<^term>\<open>None\<close> for Python's \<open>None\<close>.
\<close>

text \<open>\<open>x or d\<close> on an optional string: \<open>None\<close> and the empty string are falsy.\<close>

definition str_or :: "string option \<Rightarrow> string \<Rightarrow> string" where
  "str_or x d = (case x of None \<Rightarrow> d | Some s \<Rightarrow> if s = [] then d else s)"

text \<open>
  \<open>str.lower()\<close> on the code points 0 to 255: the letters A to Z, and the Latin-1
  capitals 192 to 222 except the multiplication sign 215, move up by 32.
\<close>

definition lower_char :: "char \<Rightarrow> char" where
  "lower_char c =
     (let n = (of_char c :: nat)
      in if (65 \<le> n \<and> n \<le> 90) \<or> (192 \<le> n \<and> n \<le> 222 \<and> n \<noteq> 215)
         then char_of (n + 32) else c)"

definition lower :: "string \<Rightarrow> string" where
  "lower s = map lower_char s"

text \<open>\<open>s.startswith(p)\<close>, written as the comparison it performs.\<close>

fun startswith :: "string \<Rightarrow> string \<Rightarrow> bool" where
  "startswith s [] = True"
| "startswith [] (p # ps) = False"
| "startswith (c # cs) (p # ps) = (c = p \<and> startswith cs ps)"

text \<open>\<open>k in s\<close> on strings: \<open>k\<close> occurs in \<open>s\<close> at some position.\<close>

fun str_contains :: "string \<Rightarrow> string \<Rightarrow> bool" where
  "str_contains [] k = (k = [])"
| "str_contains (c # cs) k = (startswith (c # cs) k \<or> str_contains cs k)"

text \<open>\<open>xs.index(x)\<close> for an \<open>x\<close> that occurs in \<open>xs\<close>: the first position.\<close>

fun list_index :: "'a list \<Rightarrow> 'a \<Rightarrow> nat" where
  "list_index [] x = 0"
| "list_index (y # ys) x = (if y = x then 0 else Suc (list_index ys x))"


section \<open>Automated pipeline advancement (\<open>app.py\<close>)\<close>

record lead =
  lid :: nat
  business_name :: string
  email :: "string option"
  status :: "string option"
  activity_count :: "int option"

definition PIPELINE_ORDER :: "string list" where
  "PIPELINE_ORDER =
     [''Not Contacted'', ''Attempted'', ''Connected'', ''Follow-up Needed'',
      ''Qualified Lead'', ''Proposal Sent'', ''Converted'']"

definition TERMINAL_STATUSES :: "string set" where
  "TERMINAL_STATUSES = {''Not Interested'', ''Converted''}"

text \<open>\<open>PIPELINE_ORDER.index(s) if s in PIPELINE_ORDER else -1\<close>\<close>

definition pipeline_index :: "string \<Rightarrow> int" where
  "pipeline_index s =
     (if s \<in> set PIPELINE_ORDER then int (list_index PIPELINE_ORDER s) else - 1)"

text \<open>
  \<open>advance_lead_status(session, lead, new_status, reason)\<close>. The lead argument is
  \<open>None\<close> or a row object (always truthy); the function mutates the row in place
  and returns nothing, so the model returns the row after the call. The session
  argument is not used by the body, and the reason only goes into the printed line.
\<close>

definition advance_lead_status :: "lead option \<Rightarrow> string \<Rightarrow> string \<Rightarrow> lead option" where
  "advance_lead_status ld new_status reason =
     (case ld of
        None \<Rightarrow> None
      | Some l \<Rightarrow>
          (let current = str_or (status l) ''Not Contacted''
           in if current \<in> TERMINAL_STATUSES then Some l
              else let cur_idx = pipeline_index current;
                       new_idx = pipeline_index new_status
                   in if new_idx > cur_idx then Some (l\<lparr>status := Some new_status\<rparr>)
                      else Some l))"

text \<open>
  The index of a status as the specification words it: the position in the order
  Not Contacted, Attempted, Connected, Follow-up Needed, Qualified Lead,
  Proposal Sent, Converted, and \<open>-1\<close> for any other value.
\<close>

definition spec_index :: "string \<Rightarrow> int" where
  "spec_index s =
     (if s = ''Not Contacted'' then 0
      else if s = ''Attempted'' then 1
      else if s = ''Connected'' then 2
      else if s = ''Follow-up Needed'' then 3
      else if s = ''Qualified Lead'' then 4
      else if s = ''Proposal Sent'' then 5
      else if s = ''Converted'' then 6
      else - 1)"


section \<open>Email categorizer (\<open>microsoft_integration.py\<close>)\<close>

text \<open>
  \<open>OUTREACH_CATEGORIES\<close> is a dict literal; iterating \<open>.items()\<close> yields its entries
  in the order written, so it is an association list.
\<close>

definition OUTREACH_CATEGORIES :: "(string \<times> string list) list" where
  "OUTREACH_CATEGORIES =
     [(''introduction'',
         [''introduction'', ''intro'', ''reaching out'', ''first contact'',
          ''nice to meet'', ''introducing myself'', ''let me introduce'']),
      (''follow_up'',
         [''follow up'', ''following up'', ''checking in'', ''just wanted to'',
          ''touching base'', ''circling back'', ''quick follow'']),
      (''meeting_date'',
         [''meeting date'', ''schedule'', ''calendar'', ''book a time'',
          ''availability'', ''let'' @ [CHR 0x27] @ ''s meet'', ''meeting request'',
          ''call scheduled'']),
      (''contract_deal'',
         [''contract deal'', ''proposal'', ''agreement'', ''pricing'', ''quote'',
          ''contract'', ''terms'', ''offer'', ''deal terms'']),
      (''deal_closed'',
         [''deal closed'', ''welcome aboard'', ''signed'', ''congratulations'',
          ''looking forward'', ''thank you for choosing'', ''welcome to''])]"

text \<open>The inner loop: does any keyword of one category occur in the subject?\<close>

fun keyword_loop :: "string list \<Rightarrow> string \<Rightarrow> bool" where
  "keyword_loop [] subject_lower = False"
| "keyword_loop (keyword # keywords) subject_lower =
     (if str_contains subject_lower keyword then True
      else keyword_loop keywords subject_lower)"

text \<open>The outer loop: the first category whose inner loop returns.\<close>

fun category_loop :: "(string \<times> string list) list \<Rightarrow> string \<Rightarrow> string option" where
  "category_loop [] subject_lower = None"
| "category_loop ((category, keywords) # rest) subject_lower =
     (if keyword_loop keywords subject_lower then Some category
      else category_loop rest subject_lower)"

definition categorize_email :: "string option \<Rightarrow> string option" where
  "categorize_email subject =
     (case subject of
        None \<Rightarrow> None
      | Some s \<Rightarrow> if s = [] then None else category_loop OUTREACH_CATEGORIES (lower s))"


section \<open>JSON values\<close>

text \<open>
  A request body and a mail provider message are parsed JSON. An object is an
  association list with distinct keys. Numbers are integers here; no handler below
  computes with them.
\<close>

datatype json =
    JNull
  | JBool bool
  | JNum int
  | JStr string
  | JArr "json list"
  | JObj "(string \<times> json) list"

type_synonym dict = "(string \<times> json) list"

datatype py_error = AttributeError | TypeError | ValueError

text \<open>\<open>d.get(k, default)\<close> on a dict; \<open>d.get(k)\<close> is \<open>dict_get d k JNull\<close>.\<close>

definition dict_get :: "dict \<Rightarrow> string \<Rightarrow> json \<Rightarrow> json" where
  "dict_get d k dflt = (case map_of d k of None \<Rightarrow> dflt | Some v \<Rightarrow> v)"

text \<open>\<open>v.get(k, default)\<close> on any value: only a dict has the method.\<close>

fun obj_get :: "json \<Rightarrow> string \<Rightarrow> json \<Rightarrow> py_error + json" where
  "obj_get (JObj d) k dflt = Inr (dict_get d k dflt)"
| "obj_get v k dflt = Inl AttributeError"

text \<open>\<open>v.lower()\<close> on any value: only a string has the method.\<close>

fun json_lower :: "json \<Rightarrow> py_error + string" where
  "json_lower (JStr s) = Inr (lower s)"
| "json_lower v = Inl AttributeError"

text \<open>Python truthiness of a parsed JSON value.\<close>

fun truthy :: "json \<Rightarrow> bool" where
  "truthy JNull = False"
| "truthy (JBool b) = b"
| "truthy (JNum n) = (n \<noteq> 0)"
| "truthy (JStr s) = (s \<noteq> [])"
| "truthy (JArr xs) = (xs \<noteq> [])"
| "truthy (JObj d) = (d \<noteq> [])"


section \<open>Activity logging (\<open>app.py\<close>)\<close>

text \<open>
  The columns of \<open>Log\<close> that the two handlers fill from the request. Timestamps are
  left out of the rows of this section.
\<close>

record log =
  log_lead_id :: "nat option"
  activity_type :: json
  outcome :: json
  log_notes :: json
  call_duration :: json
  call_outcome :: json
  call_notes :: json
  email_subject :: json

text \<open>\<open>session.query(Lead).filter_by(id=lead_id).first()\<close>\<close>

definition get_lead :: "lead list \<Rightarrow> nat \<Rightarrow> lead option" where
  "get_lead rows i = find (\<lambda>r. lid r = i) rows"

text \<open>
  A row object changed in place is written back at commit: the row of the table
  with its primary key is replaced.
\<close>

fun replace_lead :: "lead list \<Rightarrow> lead \<Rightarrow> lead list" where
  "replace_lead [] l = []"
| "replace_lead (r # rs) l = (if lid r = lid l then l # rs else r # replace_lead rs l)"

text \<open>The row object after \<open>advance_lead_status(session, lead, new_status, reason)\<close>.\<close>

definition advance_row :: "lead \<Rightarrow> string \<Rightarrow> string \<Rightarrow> lead" where
  "advance_row l new_status reason =
     (case advance_lead_status (Some l) new_status reason of Some l' \<Rightarrow> l' | None \<Rightarrow> l)"

text \<open>
  The \<open>if\<close>/\<open>elif\<close> chain under "Auto-advance pipeline based on activity type" in
  \<open>quick_log_activity\<close>: the arguments \<open>(new_status, reason)\<close> of the call to
  \<open>advance_lead_status\<close> that it makes, or \<open>None\<close> when it makes no call.
\<close>

definition quick_log_advance :: "dict \<Rightarrow> (string \<times> string) option" where
  "quick_log_advance data =
     (let activity_type = dict_get data ''activity_type'' (JStr ''Call'');
          outcome = dict_get data ''outcome'' (JStr [])
      in if activity_type = JStr ''Call'' then
           (if outcome = JStr ''Connected'' \<or> outcome = JStr ''Interested''
            then Some (''Connected'', ''call connected'')
            else Some (''Attempted'', ''call attempted''))
         else if activity_type = JStr ''Email'' then Some (''Attempted'', ''email logged'')
         else if activity_type = JStr ''Meeting'' then Some (''Connected'', ''meeting logged'')
         else if activity_type = JStr ''Note'' then None
         else None)"

text \<open>The same chain in \<open>create_log\<close>, where the activity type defaults to the empty string.\<close>

definition create_log_advance :: "dict \<Rightarrow> (string \<times> string) option" where
  "create_log_advance data =
     (let activity_type = dict_get data ''activity_type'' (JStr []);
          outcome = dict_get data ''outcome'' (JStr [])
      in if activity_type = JStr ''Call'' then
           (if outcome = JStr ''Connected'' \<or> outcome = JStr ''Interested''
            then Some (''Connected'', ''call connected'')
            else Some (''Attempted'', ''call attempted''))
         else if activity_type = JStr ''Email'' then Some (''Attempted'', ''email logged'')
         else if activity_type = JStr ''Meeting'' then Some (''Connected'', ''meeting logged'')
         else None)"

text \<open>The \<open>Log(...)\<close> row each handler builds.\<close>

definition quick_log_entry :: "nat \<Rightarrow> dict \<Rightarrow> log" where
  "quick_log_entry lead_id data =
     \<lparr>log_lead_id = Some lead_id,
      activity_type = dict_get data ''activity_type'' (JStr ''Call''),
      outcome = dict_get data ''outcome'' (JStr ''Attempted''),
      log_notes = dict_get data ''notes'' (JStr []),
      call_duration = JNull, call_outcome = JNull, call_notes = JNull,
      email_subject = JNull\<rparr>"

definition create_log_entry :: "nat \<Rightarrow> dict \<Rightarrow> log" where
  "create_log_entry lead_id data =
     \<lparr>log_lead_id = Some lead_id,
      activity_type = dict_get data ''activity_type'' JNull,
      outcome = dict_get data ''outcome'' JNull,
      log_notes = dict_get data ''notes'' JNull,
      call_duration = dict_get data ''call_duration'' JNull,
      call_outcome = dict_get data ''call_outcome'' JNull,
      call_notes = dict_get data ''call_notes'' JNull,
      email_subject = dict_get data ''email_subject'' JNull\<rparr>"

text \<open>
  The result of a handler: the HTTP status code with the row it returns, if any.
  A handler that ends in an error never commits, so the tables come back unchanged.
\<close>

datatype 'a response = Ok 'a | Failed nat

text \<open>
  \<open>quick_log_activity(lead_id)\<close> and \<open>create_log(lead_id)\<close> on the tables of leads and
  logs, for a request whose body is a JSON object. \<open>lead.activity_count += 1\<close> raises
  on a null count; neither handler catches it, which is a 500 response.
\<close>

definition quick_log_activity ::
  "lead list \<times> log list \<Rightarrow> nat \<Rightarrow> dict \<Rightarrow> log response \<times> (lead list \<times> log list)" where
  "quick_log_activity db lead_id data =
     (case get_lead (fst db) lead_id of
        None \<Rightarrow> (Failed 404, db)
      | Some lead \<Rightarrow>
          (case activity_count lead of
             None \<Rightarrow> (Failed 500, db)
           | Some n \<Rightarrow>
               (let lg = quick_log_entry lead_id data;
                    lead1 = lead\<lparr>activity_count := Some (n + 1)\<rparr>;
                    lead2 = (case quick_log_advance data of
                               None \<Rightarrow> lead1
                             | Some (new_status, reason) \<Rightarrow> advance_row lead1 new_status reason)
                in (Ok lg, (replace_lead (fst db) lead2, snd db @ [lg])))))"

definition create_log ::
  "lead list \<times> log list \<Rightarrow> nat \<Rightarrow> dict \<Rightarrow> log response \<times> (lead list \<times> log list)" where
  "create_log db lead_id data =
     (case get_lead (fst db) lead_id of
        None \<Rightarrow> (Failed 404, db)
      | Some lead \<Rightarrow>
          (case activity_count lead of
             None \<Rightarrow> (Failed 500, db)
           | Some n \<Rightarrow>
               (let lg = create_log_entry lead_id data;
                    lead1 = lead\<lparr>activity_count := Some (n + 1)\<rparr>;
                    lead2 = (case create_log_advance data of
                               None \<Rightarrow> lead1
                             | Some (new_status, reason) \<Rightarrow> advance_row lead1 new_status reason)
                in (Ok lg, (replace_lead (fst db) lead2, snd db @ [lg])))))"

text \<open>
  The proposed status as the specification's table gives it, from the type and the
  outcome of the logged activity: Connected for a call whose outcome is Connected or
  Interested, Attempted for any other call, Attempted for an email, Connected for a
  meeting, and no call of the rule for a note, a task or anything else.
\<close>

definition spec_proposed :: "json \<Rightarrow> json \<Rightarrow> string option" where
  "spec_proposed logged_type logged_outcome =
     (if logged_type = JStr ''Call'' then
        (if logged_outcome \<in> {JStr ''Connected'', JStr ''Interested''}
         then Some ''Connected'' else Some ''Attempted'')
      else if logged_type = JStr ''Email'' then Some ''Attempted''
      else if logged_type = JStr ''Meeting'' then Some ''Connected''
      else None)"


section \<open>Generated emails and the reply matcher (\<open>app.py\<close>)\<close>

text \<open>
  A \<open>datetime\<close> is a point on some clock. \<open>datetime.fromisoformat\<close> and
  \<open>datetime.utcnow\<close> belong to the standard library and are parameters of the
  functions below: \<open>fromisoformat :: string \<Rightarrow> datetime option\<close> is \<open>None\<close> where
  the library raises \<open>ValueError\<close>, and \<open>now :: datetime\<close> is the reading of the clock.
\<close>

type_synonym datetime = int

record generated_email =
  eid :: nat
  lead_id :: "nat option"
  recipient_email :: "string option"
  subject :: "string option"
  body :: "string option"
  estatus :: "string option"
  sent_at :: "datetime option"
  reply_status :: "string option"
  replied_at :: "datetime option"
  reply_snippet :: "string option"
  microsoft_message_id :: "string option"

text \<open>\<open>s.replace("Z", "+00:00")\<close>: every occurrence of the letter is replaced.\<close>

definition replace_Z :: "string \<Rightarrow> string" where
  "replace_Z s = concat (map (\<lambda>c. if c = CHR ''Z'' then ''+00:00'' else [c]) s)"

text \<open>
  The query for the sent emails that have no reply yet,
  \<open>status == "sent"\<close> and \<open>reply_status.in_(["no_reply", None])\<close>. Whether the
  database's \<open>IN\<close> test selects a row whose \<open>reply_status\<close> is \<open>NULL\<close> is left to the
  database: \<open>null_in\<close> is its answer.
\<close>

definition awaiting_reply :: "bool \<Rightarrow> generated_email \<Rightarrow> bool" where
  "awaiting_reply null_in e =
     (estatus e = Some ''sent'' \<and>
      (reply_status e = Some ''no_reply'' \<or> (null_in \<and> reply_status e = None)))"

text \<open>
  The test \<open>is_reply\<close> of one inbox message against one sent email, with the four
  assignments before it. \<open>and\<close> evaluates left to right and stops at the first
  falsy operand, so the subject of the message is only lower-cased when the
  recipient is non-empty and equals the sender.
\<close>

definition is_reply :: "generated_email \<Rightarrow> dict \<Rightarrow> py_error + bool" where
  "is_reply sent_email msg =
     (let msg_subject = dict_get msg ''subject'' (JStr [])
      in case obj_get (dict_get msg ''from'' (JObj [])) ''emailAddress'' (JObj []) of
           Inl err \<Rightarrow> Inl err
         | Inr email_address \<Rightarrow>
        (case obj_get email_address ''address'' (JStr []) of
           Inl err \<Rightarrow> Inl err
         | Inr address \<Rightarrow>
        (case json_lower address of
           Inl err \<Rightarrow> Inl err
         | Inr msg_from \<Rightarrow>
        (let recipient = lower (str_or (recipient_email sent_email) []);
             original_subject = lower (str_or (subject sent_email) [])
         in if recipient = [] then Inr False
            else if msg_from \<noteq> recipient then Inr False
            else (case json_lower msg_subject of
                    Inl err \<Rightarrow> Inl err
                  | Inr subject_lower \<Rightarrow>
                      Inr (startswith subject_lower ''re:'' \<and>
                           str_contains subject_lower original_subject))))))"

text \<open>
  \<open>datetime.fromisoformat(msg["receivedDateTime"].replace("Z", "+00:00"))
  if msg.get("receivedDateTime") else datetime.utcnow()\<close>
\<close>

definition received_at ::
  "(string \<Rightarrow> datetime option) \<Rightarrow> datetime \<Rightarrow> dict \<Rightarrow> py_error + datetime" where
  "received_at fromisoformat now msg =
     (let v = dict_get msg ''receivedDateTime'' JNull
      in if truthy v then
           (case v of
              JStr s \<Rightarrow> (case fromisoformat (replace_Z s) of
                           None \<Rightarrow> Inl ValueError
                         | Some t \<Rightarrow> Inr t)
            | _ \<Rightarrow> Inl AttributeError)
         else Inr now)"

text \<open>
  \<open>(msg.get("bodyPreview") or "")[:500]\<close>; a truthy value that is not a string
  cannot be sliced into a text column.
\<close>

definition snippet :: "dict \<Rightarrow> py_error + string" where
  "snippet msg =
     (let v = dict_get msg ''bodyPreview'' JNull
      in if truthy v then (case v of JStr s \<Rightarrow> Inr (take 500 s) | _ \<Rightarrow> Inl TypeError)
         else Inr [])"

text \<open>\<open>not sent_email.lead_id\<close>: a missing key and the key 0 are falsy.\<close>

definition no_lead_id :: "nat option \<Rightarrow> bool" where
  "no_lead_id i = (i = None \<or> i = Some 0)"

text \<open>
  The body of \<open>if is_reply:\<close> up to the \<open>break\<close>: the three assignments, the link to
  a lead with the recipient's address, and the advance of the lead to Connected.
\<close>

definition on_reply ::
  "(string \<Rightarrow> datetime option) \<Rightarrow> datetime \<Rightarrow> lead list \<Rightarrow> generated_email \<Rightarrow> dict
     \<Rightarrow> py_error + (generated_email \<times> lead list)" where
  "on_reply fromisoformat now leads sent_email msg =
     (case received_at fromisoformat now msg of
        Inl err \<Rightarrow> Inl err
      | Inr t \<Rightarrow>
     (case snippet msg of
        Inl err \<Rightarrow> Inl err
      | Inr snip \<Rightarrow>
     (let e1 = sent_email\<lparr>reply_status := Some ''replied'', replied_at := Some t,
                          reply_snippet := Some snip\<rparr>;
          e2 = (if no_lead_id (lead_id e1) \<and> str_or (recipient_email e1) [] \<noteq> [] then
                  (case find (\<lambda>l. email l = recipient_email e1) leads of
                     None \<Rightarrow> e1
                   | Some matched_lead \<Rightarrow> e1\<lparr>lead_id := Some (lid matched_lead)\<rparr>)
                else e1);
          leads' = (if no_lead_id (lead_id e2) then leads
                    else (case advance_lead_status (get_lead leads (the (lead_id e2)))
                                 ''Connected'' ''email reply received'' of
                            None \<Rightarrow> leads
                          | Some reply_lead \<Rightarrow> replace_lead leads reply_lead))
      in Inr (e2, leads'))))"

text \<open>
  The inner loop \<open>for msg in inbox_messages\<close> for one sent email: the messages are
  tested in the order of the list, and the loop breaks at the first reply. The
  third component is what the match adds to \<open>updated_count\<close>.
\<close>

fun inbox_loop ::
  "(string \<Rightarrow> datetime option) \<Rightarrow> datetime \<Rightarrow> lead list \<Rightarrow> generated_email \<Rightarrow> dict list
     \<Rightarrow> py_error + (generated_email \<times> lead list \<times> nat)" where
  "inbox_loop fromisoformat now leads sent_email [] = Inr (sent_email, leads, 0)"
| "inbox_loop fromisoformat now leads sent_email (msg # msgs) =
     (case is_reply sent_email msg of
        Inl err \<Rightarrow> Inl err
      | Inr True \<Rightarrow>
          (case on_reply fromisoformat now leads sent_email msg of
             Inl err \<Rightarrow> Inl err
           | Inr (e, leads') \<Rightarrow> Inr (e, leads', 1))
      | Inr False \<Rightarrow> inbox_loop fromisoformat now leads sent_email msgs)"

text \<open>The outer loop \<open>for sent_email in sent_emails\<close>, with the running count.\<close>

fun sent_loop ::
  "(string \<Rightarrow> datetime option) \<Rightarrow> datetime \<Rightarrow> dict list \<Rightarrow> lead list \<Rightarrow> generated_email list
     \<Rightarrow> py_error + (generated_email list \<times> lead list \<times> nat)" where
  "sent_loop fromisoformat now inbox_messages leads [] = Inr ([], leads, 0)"
| "sent_loop fromisoformat now inbox_messages leads (sent_email # rest) =
     (case inbox_loop fromisoformat now leads sent_email inbox_messages of
        Inl err \<Rightarrow> Inl err
      | Inr (e, leads1, c) \<Rightarrow>
          (case sent_loop fromisoformat now inbox_messages leads1 rest of
             Inl err \<Rightarrow> Inl err
           | Inr (es, leads2, n) \<Rightarrow> Inr (e # es, leads2, c + n)))"

text \<open>
  The commit: the rows that the query selected are the objects the loop changed, so
  each selected row of the table takes the state of its object, in table order.
\<close>

fun write_back :: "bool \<Rightarrow> generated_email list \<Rightarrow> generated_email list \<Rightarrow> generated_email list" where
  "write_back null_in [] objs = []"
| "write_back null_in (row # rows) objs =
     (if awaiting_reply null_in row then
        (case objs of
           [] \<Rightarrow> row # write_back null_in rows []
         | obj # objs' \<Rightarrow> obj # write_back null_in rows objs')
      else row # write_back null_in rows objs)"

text \<open>The answer of the provider to the request for the inbox, or an exception.\<close>

datatype inbox_response = Raised | Responded nat "dict list"

text \<open>What the handler answers: the \<open>updated\<close> and \<open>checked\<close> counts, or an error code.\<close>

datatype reply_check = NoEmailsToCheck | Checked nat nat | CheckFailed nat

fun updated :: "reply_check \<Rightarrow> nat" where
  "updated NoEmailsToCheck = 0"
| "updated (Checked u c) = u"
| "updated (CheckFailed code) = 0"

text \<open>
  \<open>check_email_replies()\<close> from the query for the sent emails onwards, for a
  connected account with a valid token. The tables are the generated emails and the
  leads. Every error path returns before the commit and leaves the tables as they
  were.
\<close>

definition check_email_replies ::
  "bool \<Rightarrow> (string \<Rightarrow> datetime option) \<Rightarrow> datetime \<Rightarrow> inbox_response
     \<Rightarrow> generated_email list \<times> lead list
     \<Rightarrow> reply_check \<times> (generated_email list \<times> lead list)" where
  "check_email_replies null_in fromisoformat now inbox_resp db =
     (let sent_emails = filter (awaiting_reply null_in) (fst db)
      in if sent_emails = [] then (NoEmailsToCheck, db)
         else (case inbox_resp of
                 Raised \<Rightarrow> (CheckFailed 500, db)
               | Responded status_code inbox_messages \<Rightarrow>
                   if status_code \<noteq> 200 then (CheckFailed 500, db)
                   else (case sent_loop fromisoformat now inbox_messages (snd db) sent_emails of
                           Inl err \<Rightarrow> (CheckFailed 500, db)
                         | Inr (objs, leads', updated_count) \<Rightarrow>
                             (Checked updated_count (length sent_emails),
                              (write_back null_in (fst db) objs, leads')))))"

text \<open>
  The matching rule as the specification words it, on the sender address and the
  subject of the message and the recipient address and the subject of the sent
  email: the addresses are equal, the message subject starts with "re:", and the
  sent subject occurs in the message subject, all without regard to case.
\<close>

definition spec_is_reply :: "string \<Rightarrow> string \<Rightarrow> string \<Rightarrow> string \<Rightarrow> bool" where
  "spec_is_reply m_sender m_subject s_recipient s_subject =
     (lower m_sender = lower s_recipient \<and>
      prefix ''re:'' (lower m_subject) \<and>
      sublist (lower s_subject) (lower m_subject))"







section \<open>Sending a generated email (\<open>app.py\<close>)\<close>

text \<open>\<open>session.query(GeneratedEmail).filter_by(id=email_id).first()\<close> and the write back.\<close>

definition get_email :: "generated_email list \<Rightarrow> nat \<Rightarrow> generated_email option" where
  "get_email rows i = find (\<lambda>r. eid r = i) rows"

fun replace_email :: "generated_email list \<Rightarrow> generated_email \<Rightarrow> generated_email list" where
  "replace_email [] e = []"
| "replace_email (r # rs) e = (if eid r = eid e then e # rs else r # replace_email rs e)"

text \<open>
  The outcome of the token section of \<open>send_email\<close> (the lookup of the stored token
  and its refresh over HTTP): the integration is not configured, no token is stored,
  the refresh is rejected or raises, or a usable token is at hand.
\<close>

datatype token_check = NotConfigured | NotConnected | RefreshFailed | TokenReady

text \<open>The answer of the provider to the \<open>sendMail\<close> request: an exception or a status code.\<close>

datatype send_response = SendRaised | SendStatus nat

text \<open>\<open>email.lead\<close>: the lead the foreign key points to, if any.\<close>

definition email_lead :: "lead list \<Rightarrow> generated_email \<Rightarrow> lead option" where
  "email_lead leads e = (case lead_id e of None \<Rightarrow> None | Some i \<Rightarrow> get_lead leads i)"

text \<open>
  The answer of the provider to the request for the newest sent item, made after an
  accepted send to learn the message id: an exception, or a status code with the
  messages of the \<open>value\<close> field.
\<close>

datatype lookup_response = LookupRaised | LookupStatus nat "dict list"

text \<open>
  \<open>msgs[0].get("internetMessageId") or msgs[0].get("id")\<close>, as the text column
  stores it; the provider's ids are strings, and any other value reads as \<open>None\<close>.
\<close>

definition message_id :: "dict \<Rightarrow> string option" where
  "message_id m =
     (let a = dict_get m ''internetMessageId'' JNull;
          v = (if truthy a then a else dict_get m ''id'' JNull)
      in case v of JStr s \<Rightarrow> Some s | _ \<Rightarrow> None)"

text \<open>
  The \<open>try\<close> block "Try to get the sent message ID": its \<open>except\<close> swallows every
  exception, also the one \<open>email.subject.replace\<close> raises on a null subject while
  the request is built.
\<close>

definition capture_message_id :: "lookup_response \<Rightarrow> generated_email \<Rightarrow> generated_email" where
  "capture_message_id lookup e =
     (case subject e of
        None \<Rightarrow> e
      | Some s \<Rightarrow>
          (case lookup of
             LookupRaised \<Rightarrow> e
           | LookupStatus status_code msgs \<Rightarrow>
               if status_code = 200 then
                 (case msgs of [] \<Rightarrow> e | m # rest \<Rightarrow> e\<lparr>microsoft_message_id := message_id m\<rparr>)
               else e))"

text \<open>
  \<open>if not email.lead_id and to_email:\<close> the email is linked to the first lead with
  the recipient's address, if there is one.
\<close>

definition link_lead :: "lead list \<Rightarrow> string \<Rightarrow> generated_email \<Rightarrow> generated_email" where
  "link_lead leads to_email e =
     (if no_lead_id (lead_id e) \<and> to_email \<noteq> [] then
        (case find (\<lambda>l. email l = Some to_email) leads of
           None \<Rightarrow> e
         | Some matched_lead \<Rightarrow> e\<lparr>lead_id := Some (lid matched_lead)\<rparr>)
      else e)"

text \<open>\<open>f"{email.subject}"\<close>: a null subject prints as \<open>None\<close>.\<close>

definition fmt :: "string option \<Rightarrow> string" where
  "fmt x = (case x of None \<Rightarrow> ''None'' | Some s \<Rightarrow> s)"

text \<open>The \<open>Log(...)\<close> row written for a sent email.\<close>

definition sent_log :: "nat option \<Rightarrow> string \<Rightarrow> log" where
  "sent_log lead text =
     \<lparr>log_lead_id = lead, activity_type = JStr ''Email'', outcome = JStr ''Sent'',
      log_notes = JStr text, call_duration = JNull, call_outcome = JNull,
      call_notes = JNull, email_subject = JNull\<rparr>"

text \<open>
  The branch \<open>if response.status_code == 202:\<close> up to the commit, on the tables of
  generated emails, leads and logs. \<open>email.lead\<close> is read after the link, so it is the
  lead the new key points to. Timestamps of leads and logs are left out, as in the
  rows of the logging handlers.
\<close>

definition send_accepted ::
  "lookup_response \<Rightarrow> datetime \<Rightarrow> string \<Rightarrow> generated_email
     \<Rightarrow> generated_email list \<times> lead list \<times> log list
     \<Rightarrow> generated_email list \<times> lead list \<times> log list" where
  "send_accepted lookup now to_email e db =
     (let emails = fst db; leads = fst (snd db); logs = snd (snd db);
          e1 = e\<lparr>estatus := Some ''sent'', sent_at := Some now,
                 reply_status := Some ''no_reply''\<rparr>;
          e2 = capture_message_id lookup e1;
          e3 = link_lead leads to_email e2
      in if no_lead_id (lead_id e3) then
           (replace_email emails e3, leads,
            logs @ [sent_log None
                      (''Subject: '' @ fmt (subject e3) @ '' | To: '' @ to_email
                       @ '' | Direct Send'')])
         else
           (case email_lead leads e3 of
              None \<Rightarrow> (replace_email emails e3, leads, logs)
            | Some lead \<Rightarrow>
                (let lead1 = lead\<lparr>activity_count :=
                               Some ((case activity_count lead of None \<Rightarrow> 0 | Some n \<Rightarrow> n) + 1)\<rparr>;
                     lead2 = advance_row lead1 ''Attempted'' ''email sent''
                 in (replace_email emails e3, replace_lead leads lead2,
                     logs @ [sent_log (lead_id e3)
                               (''Subject: '' @ fmt (subject e3) @ '' | To: '' @ to_email)]))))"

text \<open>
  \<open>send_email(email_id)\<close>. The result is the HTTP status code of the answer, the
  \<open>sendMail\<close> requests posted to the provider (recipient and subject), and the tables
  after the request. Every answer other than 200 is given before the commit (or
  after a rollback) and leaves the tables as they were.
\<close>

definition send_email ::
  "token_check \<Rightarrow> send_response \<Rightarrow> lookup_response \<Rightarrow> datetime
     \<Rightarrow> generated_email list \<times> lead list \<times> log list \<Rightarrow> nat
     \<Rightarrow> nat \<times> (string \<times> string option) list \<times> (generated_email list \<times> lead list \<times> log list)" where
  "send_email token response lookup now db email_id =
     (case get_email (fst db) email_id of
        None \<Rightarrow> (404, [], db)
      | Some e \<Rightarrow>
          if estatus e \<noteq> Some ''approved'' \<and> estatus e \<noteq> Some ''pending_review''
          then (400, [], db)
          else
            (let to_email =
                   (if str_or (recipient_email e) [] \<noteq> [] then str_or (recipient_email e) []
                    else (case email_lead (fst (snd db)) e of
                            None \<Rightarrow> []
                          | Some l \<Rightarrow> str_or (email l) []))
             in if to_email = [] then (400, [], db)
                else
                  (case token of
                     NotConfigured \<Rightarrow> (500, [], db)
                   | NotConnected \<Rightarrow> (401, [], db)
                   | RefreshFailed \<Rightarrow> (401, [], db)
                   | TokenReady \<Rightarrow>
                       (case response of
                          SendRaised \<Rightarrow> (500, [(to_email, subject e)], db)
                        | SendStatus status_code \<Rightarrow>
                            if status_code = 202
                            then (200, [(to_email, subject e)],
                                  send_accepted lookup now to_email e db)
                            else (500, [(to_email, subject e)], db)))))"


section \<open>Example data\<close>

text \<open>
  The sent email and the three inbox messages of the specification's examples, a
  second sent email nobody has answered, and a lead with the recipient's address.
\<close>

definition example_sent :: generated_email where
  "example_sent =
     \<lparr>eid = 1, lead_id = None, recipient_email = Some ''a@x.com'',
      subject = Some ''Introduction - Acme'', body = Some ''Hello'',
      estatus = Some ''sent'', sent_at = Some 100, reply_status = Some ''no_reply'',
      replied_at = None, reply_snippet = None, microsoft_message_id = None\<rparr>"

definition example_unanswered :: generated_email where
  "example_unanswered =
     \<lparr>eid = 2, lead_id = None, recipient_email = Some ''c@y.org'',
      subject = Some ''Quick follow up'', body = Some ''Hi again'',
      estatus = Some ''sent'', sent_at = Some 110, reply_status = Some ''no_reply'',
      replied_at = None, reply_snippet = None, microsoft_message_id = None\<rparr>"

definition example_message :: "string \<Rightarrow> string \<Rightarrow> dict" where
  "example_message sender subj =
     [(''id'', JStr ''AAMk''), (''subject'', JStr subj),
      (''from'', JObj [(''emailAddress'', JObj [(''name'', JStr ''A''), (''address'', JStr sender)])]),
      (''receivedDateTime'', JStr ''2024-05-01T10:00:00Z''),
      (''bodyPreview'', JStr ''Thanks, let us talk.'')]"

definition example_lead :: lead where
  "example_lead =
     \<lparr>lid = 7, business_name = ''Acme'', email = Some ''a@x.com'',
      status = Some ''Attempted'', activity_count = Some 2\<rparr>"

text \<open>A clock for the examples: every timestamp parses to 500.\<close>

definition example_fromisoformat :: "string \<Rightarrow> datetime option" where
  "example_fromisoformat s = Some 500"


section \<open>Facts about the string helpers\<close>

lemma startswith_prefix: "startswith s p = prefix p s"
  by (induction s p rule: startswith.induct) auto

lemma str_contains_sublist: "str_contains s k = sublist k s"
  by (induction s) (simp_all add: startswith_prefix sublist_Cons_right)

lemma length_lower: "length (lower s) = length s"
  by (simp add: lower_def)


section \<open>The pipeline advancement rule\<close>

lemma pipeline_index_spec: "pipeline_index s = spec_index s"
  by (simp add: pipeline_index_def spec_index_def PIPELINE_ORDER_def)

lemma advance_reason_irrelevant:
  "advance_lead_status ld p r1 = advance_lead_status ld p r2"
  by (simp add: advance_lead_status_def)

text \<open>
  C1. Let \<open>current\<close> be the lead's status, or Not Contacted when the status is unset
  (\<open>None\<close> or empty). When \<open>current\<close> is neither Converted nor Not Interested,
  \<open>advance_lead_status\<close> writes the proposed status into the lead exactly when the
  proposed status has a greater index than \<open>current\<close> in the canonical order (\<open>-1\<close>
  for a value outside it); otherwise the lead is left as it was.
\<close>

theorem advance_forward_iff:
  assumes "current =
      (if status l = None \<or> status l = Some [] then ''Not Contacted'' else the (status l))"
    and "current \<noteq> ''Converted''" and "current \<noteq> ''Not Interested''"
  shows "advance_lead_status (Some l) proposed reason =
           Some (if spec_index proposed > spec_index current
                 then l\<lparr>status := Some proposed\<rparr> else l)"
proof -
  have cur: "str_or (status l) ''Not Contacted'' = current"
    using assms(1) by (cases "status l") (simp_all add: str_or_def)
  have nt: "current \<notin> TERMINAL_STATUSES"
    using assms(2,3) by (simp add: TERMINAL_STATUSES_def)
  show ?thesis
    using nt by (simp add: advance_lead_status_def cur pipeline_index_spec)
qed

theorem advance_forward_iff_witness:
  "advance_lead_status
     (Some \<lparr>lid = 7, business_name = ''Acme'', email = None,
            status = Some ''Attempted'', activity_count = Some 2\<rparr>)
     ''Connected'' ''call connected''
   = Some \<lparr>lid = 7, business_name = ''Acme'', email = None,
           status = Some ''Connected'', activity_count = Some 2\<rparr>
   \<and> advance_lead_status
     (Some \<lparr>lid = 7, business_name = ''Acme'', email = None,
            status = Some ''Connected'', activity_count = Some 2\<rparr>)
     ''Attempted'' ''call attempted''
   = Some \<lparr>lid = 7, business_name = ''Acme'', email = None,
           status = Some ''Connected'', activity_count = Some 2\<rparr>"
  using advance_forward_iff [of "''Attempted''"
      "\<lparr>lid = 7, business_name = ''Acme'', email = None,
        status = Some ''Attempted'', activity_count = Some 2\<rparr>"
      "''Connected''" "''call connected''"]
    advance_forward_iff [of "''Connected''"
      "\<lparr>lid = 7, business_name = ''Acme'', email = None,
        status = Some ''Connected'', activity_count = Some 2\<rparr>"
      "''Attempted''" "''call attempted''"]
  by (simp add: spec_index_def)

text \<open>
  C2. A lead whose status is Converted or Not Interested comes back from
  \<open>advance_lead_status\<close> unchanged, whatever status is proposed and whatever the
  reason.
\<close>

theorem terminal_status_frozen:
  assumes "status l = Some ''Converted'' \<or> status l = Some ''Not Interested''"
  shows "advance_lead_status (Some l) proposed reason = Some l"
  using assms by (auto simp: advance_lead_status_def str_or_def TERMINAL_STATUSES_def)

theorem terminal_status_frozen_witness:
  "advance_lead_status
     (Some \<lparr>lid = 3, business_name = ''Globex'', email = None,
            status = Some ''Not Interested'', activity_count = Some 0\<rparr>)
     ''Proposal Sent'' ''proposal queued''
   = Some \<lparr>lid = 3, business_name = ''Globex'', email = None,
           status = Some ''Not Interested'', activity_count = Some 0\<rparr>"
  using terminal_status_frozen [of
      "\<lparr>lid = 3, business_name = ''Globex'', email = None,
        status = Some ''Not Interested'', activity_count = Some 0\<rparr>"
      "''Proposal Sent''" "''proposal queued''"]
  by simp

text \<open>
  C8. Applying \<open>advance_lead_status\<close> a second time with the same proposed status
  gives the same lead as applying it once, for every lead argument (also a missing
  one) and every pair of reasons.
\<close>

theorem advance_idempotent:
  "advance_lead_status (advance_lead_status ld proposed r1) proposed r2 =
     advance_lead_status ld proposed r1"
proof (cases ld)
  case None
  then show ?thesis by (simp add: advance_lead_status_def)
next
  case (Some l)
  show ?thesis
  proof (cases "advance_lead_status (Some l) proposed r1 = Some l")
    case True
    then show ?thesis
      using Some advance_reason_irrelevant [of "Some l" proposed r2 r1] by simp
  next
    case False
    then have adv:
        "advance_lead_status (Some l) proposed r1 = Some (l\<lparr>status := Some proposed\<rparr>)"
      and gt: "pipeline_index proposed > pipeline_index (str_or (status l) ''Not Contacted'')"
      by (auto simp: advance_lead_status_def Let_def split: if_splits)
    have "proposed \<in> set PIPELINE_ORDER"
      using gt by (simp add: pipeline_index_def split: if_splits)
    then have ne: "proposed \<noteq> []"
      by (auto simp: PIPELINE_ORDER_def)
    have "advance_lead_status (Some (l\<lparr>status := Some proposed\<rparr>)) proposed r2 =
            Some (l\<lparr>status := Some proposed\<rparr>)"
      using ne by (simp add: advance_lead_status_def str_or_def Let_def)
    then show ?thesis using Some adv by simp
  qed
qed


section \<open>The email categorizer\<close>

lemma keyword_loop_ex: "keyword_loop kws s = list_ex (\<lambda>k. sublist k s) kws"
  by (induction kws) (simp_all add: str_contains_sublist)

lemma category_loop_find:
  "category_loop cs s =
     map_option fst (find (\<lambda>(c, kws). list_ex (\<lambda>k. sublist k s) kws) cs)"
  by (induction cs) (auto simp: keyword_loop_ex)

lemma categorize_follow_up:
  "categorize_email (Some ''Quick follow up on our call'') = Some ''follow_up''"
  by code_simp

lemma categorize_pricing:
  "categorize_email (Some ''Re: Pricing for your project'') = Some ''contract_deal''"
  by code_simp

lemma categorize_happy_monday:
  "categorize_email (Some ''Happy Monday!'') = None"
  by code_simp

lemma categorize_calendar:
  "categorize_email (Some ''Calendar invite: intro call'') = Some ''introduction''"
  by code_simp

lemma categorize_find:
  "categorize_email (Some s) =
     map_option fst
       (find (\<lambda>(c, kws). list_ex (\<lambda>k. sublist k (lower s)) kws) OUTREACH_CATEGORIES)"
proof (cases "s = []")
  case True
  then show ?thesis
    by (simp add: categorize_email_def lower_def OUTREACH_CATEGORIES_def)
next
  case False
  then show ?thesis
    by (simp add: categorize_email_def category_loop_find)
qed

text \<open>
  C4. \<open>categorize_email\<close> returns the first category, in the order introduction,
  follow_up, meeting_date, contract_deal, deal_closed, one of whose keywords occurs
  in the lower-cased subject, and \<open>None\<close> when there is no such category; the empty
  subject and "Happy Monday!" are uncategorized, "Quick follow up on our call" is
  follow_up and "Re: Pricing for your project" is contract_deal.
\<close>

theorem categorize_email_first_match:
  "categorize_email (Some s) =
     map_option fst
       (find (\<lambda>(c, kws). list_ex (\<lambda>k. sublist k (lower s)) kws) OUTREACH_CATEGORIES)
   \<and> map fst OUTREACH_CATEGORIES =
       [''introduction'', ''follow_up'', ''meeting_date'', ''contract_deal'', ''deal_closed'']
   \<and> categorize_email (Some ''Quick follow up on our call'') = Some ''follow_up''
   \<and> categorize_email (Some ''Re: Pricing for your project'') = Some ''contract_deal''
   \<and> categorize_email (Some []) = None
   \<and> categorize_email (Some ''Happy Monday!'') = None"
proof -
  have "map fst OUTREACH_CATEGORIES =
      [''introduction'', ''follow_up'', ''meeting_date'', ''contract_deal'', ''deal_closed'']"
    by (simp add: OUTREACH_CATEGORIES_def)
  moreover have "categorize_email (Some []) = None"
    by (simp add: categorize_email_def)
  ultimately show ?thesis
    using categorize_find [of s] categorize_follow_up categorize_pricing
      categorize_happy_monday
    by simp
qed

theorem categorize_email_first_match_witness:
  "map_option fst
     (find (\<lambda>(c, kws). list_ex (\<lambda>k. sublist k (lower ''Calendar invite: intro call'')) kws)
        OUTREACH_CATEGORIES)
   = Some ''introduction''"
proof -
  have "categorize_email (Some ''Calendar invite: intro call'') =
      map_option fst
        (find (\<lambda>(c, kws). list_ex (\<lambda>k. sublist k (lower ''Calendar invite: intro call'')) kws)
           OUTREACH_CATEGORIES)"
    using categorize_email_first_match [of "''Calendar invite: intro call''"] by blast
  then show ?thesis
    using categorize_calendar by simp
qed


section \<open>Missing input\<close>

text \<open>
  C9. \<open>advance_lead_status\<close> called with no lead returns without touching anything,
  and \<open>categorize_email\<close> returns \<open>None\<close> for a subject that is \<open>None\<close> or empty;
  neither has a raising branch.
\<close>

theorem core_functions_defensive:
  "advance_lead_status None proposed reason = None
   \<and> categorize_email None = None
   \<and> categorize_email (Some []) = None"
  by (simp add: advance_lead_status_def categorize_email_def)


section \<open>Activity logging\<close>

lemma advance_row_reason: "advance_row l p r1 = advance_row l p r2"
  by (simp add: advance_row_def advance_lead_status_def)

lemma quick_log_advance_spec:
  "map_option fst (quick_log_advance data) =
     spec_proposed (activity_type (quick_log_entry i data)) (outcome (quick_log_entry i data))"
  by (auto simp: quick_log_advance_def spec_proposed_def quick_log_entry_def Let_def
        dict_get_def split: option.splits)

lemma create_log_advance_spec:
  "map_option fst (create_log_advance data) =
     spec_proposed (activity_type (create_log_entry i data)) (outcome (create_log_entry i data))"
  by (auto simp: create_log_advance_def spec_proposed_def create_log_entry_def Let_def
        dict_get_def split: option.splits)

lemma advance_case:
  "(case adv of None \<Rightarrow> l1 | Some (new_status, reason) \<Rightarrow> advance_row l1 new_status reason) =
   (case map_option fst adv of None \<Rightarrow> l1 | Some p \<Rightarrow> advance_row l1 p [])"
proof (cases adv)
  case None
  then show ?thesis by simp
next
  case (Some a)
  then show ?thesis
    using advance_row_reason [of l1 "fst a" "snd a" "[]"] by (cases a) simp
qed

text \<open>
  For a request on an existing lead with a counted activity, either handler stores
  the log entry and calls the advancement rule with the status the table gives for
  the logged type and outcome: Connected for a call whose outcome is Connected or
  Interested, Attempted for any other call, Attempted for an email, Connected for a
  meeting; for a note, a task or any other type it makes no call, and the lead only
  has its activity counted.
\<close>

lemma log_handlers_propose:
  assumes "get_lead (fst db) i = Some l" and "activity_count l = Some n"
    and "l1 = l\<lparr>activity_count := Some (n + 1)\<rparr>"
    and "qlg = quick_log_entry i data" and "clg = create_log_entry i data"
  shows "quick_log_activity db i data =
           (Ok qlg,
            (replace_lead (fst db)
               (case spec_proposed (activity_type qlg) (outcome qlg) of
                  None \<Rightarrow> l1 | Some p \<Rightarrow> advance_row l1 p []),
             snd db @ [qlg]))
       \<and> create_log db i data =
           (Ok clg,
            (replace_lead (fst db)
               (case spec_proposed (activity_type clg) (outcome clg) of
                  None \<Rightarrow> l1 | Some p \<Rightarrow> advance_row l1 p []),
             snd db @ [clg]))
       \<and> map_option fst (quick_log_advance data) =
           spec_proposed (activity_type qlg) (outcome qlg)
       \<and> map_option fst (create_log_advance data) =
           spec_proposed (activity_type clg) (outcome clg)"
  unfolding assms(3,4,5)
  using assms(1,2)
  by (simp add: quick_log_activity_def create_log_def Let_def advance_case
      quick_log_advance_spec [of data i] create_log_advance_spec [of data i])

lemma log_handlers_propose_example:
  "map status (fst (snd (quick_log_activity ([example_lead], []) 7
       [(''activity_type'', JStr ''Call''), (''outcome'', JStr ''Interested'')])))
     = [Some ''Connected'']
   \<and> map status (fst (snd (create_log ([example_lead], []) 7
       [(''activity_type'', JStr ''Call''), (''outcome'', JStr ''Interested'')])))
     = [Some ''Connected'']"
proof -
  let ?data = "[(''activity_type'', JStr ''Call''), (''outcome'', JStr ''Interested'')]"
  have h1: "get_lead (fst ([example_lead], [])) 7 = Some example_lead"
    by code_simp
  have h2: "activity_count example_lead = Some 2"
    by code_simp
  have q: "map status (replace_lead (fst ([example_lead], []))
        (case spec_proposed (activity_type (quick_log_entry 7 ?data))
                (outcome (quick_log_entry 7 ?data)) of
           None \<Rightarrow> example_lead\<lparr>activity_count := Some (2 + 1)\<rparr>
         | Some p \<Rightarrow> advance_row (example_lead\<lparr>activity_count := Some (2 + 1)\<rparr>) p []))
      = [Some ''Connected'']"
    by code_simp
  have c: "map status (replace_lead (fst ([example_lead], []))
        (case spec_proposed (activity_type (create_log_entry 7 ?data))
                (outcome (create_log_entry 7 ?data)) of
           None \<Rightarrow> example_lead\<lparr>activity_count := Some (2 + 1)\<rparr>
         | Some p \<Rightarrow> advance_row (example_lead\<lparr>activity_count := Some (2 + 1)\<rparr>) p []))
      = [Some ''Connected'']"
    by code_simp
  from log_handlers_propose [OF h1 h2 refl refl refl, of ?data] q c
  show ?thesis by simp
qed

text \<open>
  C3. A request to either handler on an existing lead is to invoke the advancement
  rule with the status of the table. On a lead whose \<open>activity_count\<close> is null the
  handlers do not get that far: \<open>lead.activity_count += 1\<close> raises before the dispatch,
  the answer is 500, nothing is committed and the rule is not invoked, although the
  table proposes Connected for the logged call.
\<close>

theorem log_handlers_null_count:
  "quick_log_activity ([example_lead\<lparr>activity_count := None\<rparr>], []) 7
       [(''activity_type'', JStr ''Call''), (''outcome'', JStr ''Connected'')]
     = (Failed 500, ([example_lead\<lparr>activity_count := None\<rparr>], []))
   \<and> create_log ([example_lead\<lparr>activity_count := None\<rparr>], []) 7
       [(''activity_type'', JStr ''Call''), (''outcome'', JStr ''Connected'')]
     = (Failed 500, ([example_lead\<lparr>activity_count := None\<rparr>], []))
   \<and> get_lead [example_lead\<lparr>activity_count := None\<rparr>] 7
     = Some (example_lead\<lparr>activity_count := None\<rparr>)
   \<and> spec_proposed (JStr ''Call'') (JStr ''Connected'') = Some ''Connected''
   \<and> status (example_lead\<lparr>activity_count := None\<rparr>) = Some ''Attempted''"
  by code_simp


section \<open>The reply matcher\<close>

lemma received_at_Inr:
  "received_at f now m = Inr t \<Longrightarrow>
     Some t = (case dict_get m ''receivedDateTime'' JNull of
                 JStr s \<Rightarrow> if s = [] then Some now else f (replace_Z s)
               | _ \<Rightarrow> Some now)"
  unfolding received_at_def Let_def
  by (cases "dict_get m ''receivedDateTime'' JNull") (simp_all split: if_splits option.splits)

lemma snippet_Inr:
  "snippet m = Inr sn \<Longrightarrow>
     sn = (case dict_get m ''bodyPreview'' JNull of JStr s \<Rightarrow> take 500 s | _ \<Rightarrow> [])"
  unfolding snippet_def Let_def
  by (cases "dict_get m ''bodyPreview'' JNull") (simp_all split: if_splits)

lemma on_reply_Inr:
  assumes "on_reply f now leads se m = Inr (e, leads')"
  obtains t sn where "received_at f now m = Inr t" and "snippet m = Inr sn"
    and "reply_status e = Some ''replied''" and "replied_at e = Some t"
    and "reply_snippet e = Some sn" and "estatus e = estatus se"
    and "recipient_email e = recipient_email se" and "subject e = subject se"
    and "eid e = eid se"
proof (cases "received_at f now m")
  case (Inl a)
  then show ?thesis using assms by (simp add: on_reply_def)
next
  case t: (Inr t)
  show ?thesis
  proof (cases "snippet m")
    case (Inl a)
    then show ?thesis using assms t by (simp add: on_reply_def)
  next
    case sn: (Inr sn)
    have "reply_status e = Some ''replied'' \<and> replied_at e = Some t \<and>
          reply_snippet e = Some sn \<and> estatus e = estatus se \<and>
          recipient_email e = recipient_email se \<and> subject e = subject se \<and> eid e = eid se"
      using assms t sn
      by (auto simp: on_reply_def Let_def split: option.splits if_splits)
    then show ?thesis using that t sn by blast
  qed
qed

lemma inbox_loop_first_match:
  assumes "list_all (\<lambda>m. is_reply se m = Inr False) pre"
    and "is_reply se m = Inr True"
  shows "inbox_loop f now leads se (pre @ m # post) =
           (case on_reply f now leads se m of Inl err \<Rightarrow> Inl err
            | Inr (e, leads') \<Rightarrow> Inr (e, leads', 1))"
  using assms by (induction pre) simp_all

lemma inbox_loop_no_match:
  "list_all (\<lambda>m. is_reply se m = Inr False) msgs \<Longrightarrow>
     inbox_loop f now leads se msgs = Inr (se, leads, 0)"
  by (induction msgs) simp_all

lemma inbox_loop_cases:
  assumes "inbox_loop f now leads se msgs = Inr (e, leads', c)"
  shows "(c = 0 \<and> e = se \<and> leads' = leads \<and> list_all (\<lambda>m. is_reply se m = Inr False) msgs)
       \<or> (c = 1 \<and> reply_status e = Some ''replied'' \<and> estatus e = estatus se)"
  using assms
proof (induction msgs)
  case Nil
  then show ?case by simp
next
  case (Cons m msgs)
  show ?case
  proof (cases "is_reply se m")
    case (Inl a)
    then show ?thesis using Cons.prems by simp
  next
    case (Inr b)
    show ?thesis
    proof (cases b)
      case True
      then obtain e0 l0 where o: "on_reply f now leads se m = Inr (e0, l0)"
        and eq: "e = e0" "c = 1"
        using Cons.prems Inr by (auto split: sum.splits)
      from on_reply_Inr [OF o] have "reply_status e0 = Some ''replied'' \<and> estatus e0 = estatus se"
        by metis
      then show ?thesis using eq by simp
    next
      case False
      then have "inbox_loop f now leads se msgs = Inr (e, leads', c)"
        using Cons.prems Inr by simp
      from Cons.IH [OF this] show ?thesis using False Inr by auto
    qed
  qed
qed

lemma sent_loop_no_match:
  "list_all (\<lambda>s. list_all (\<lambda>m. is_reply s m = Inr False) msgs) ses \<Longrightarrow>
     sent_loop f now msgs leads ses = Inr (ses, leads, 0)"
  by (induction ses) (simp_all add: inbox_loop_no_match)

lemma sent_loop_cases:
  assumes "sent_loop f now msgs leads ses = Inr (es, leads', n)"
  shows "list_all2 (\<lambda>s e. (e = s \<and> list_all (\<lambda>m. is_reply s m = Inr False) msgs)
                         \<or> (reply_status e = Some ''replied'' \<and> estatus e = estatus s)) ses es"
  using assms
proof (induction ses arbitrary: leads es n leads')
  case Nil
  then show ?case by simp
next
  case (Cons s ses)
  from Cons.prems obtain e l1 c where
    i: "inbox_loop f now leads s msgs = Inr (e, l1, c)"
    by (cases "inbox_loop f now leads s msgs") auto
  from Cons.prems i obtain es' l2 n' where
    r: "sent_loop f now msgs l1 ses = Inr (es', l2, n')" and es: "es = e # es'"
    by (cases "sent_loop f now msgs l1 ses") auto
  from inbox_loop_cases [OF i] Cons.IH [OF r] es show ?case by auto
qed

lemma write_back_same:
  "write_back nm rows (filter (awaiting_reply nm) rows) = rows"
  by (induction rows) simp_all

lemma filter_write_back:
  assumes "list_all2 (\<lambda>s e. e = s \<or> \<not> awaiting_reply nm e) (filter (awaiting_reply nm) rows) objs"
  shows "filter (awaiting_reply nm) (write_back nm rows objs) = filter (awaiting_reply nm) objs"
  using assms
proof (induction rows arbitrary: objs)
  case Nil
  then show ?case by simp
next
  case (Cons r rows)
  show ?case
  proof (cases "awaiting_reply nm r")
    case True
    with Cons.prems obtain obj objs' where o: "objs = obj # objs'"
      and h: "obj = r \<or> \<not> awaiting_reply nm obj"
      and t: "list_all2 (\<lambda>s e. e = s \<or> \<not> awaiting_reply nm e) (filter (awaiting_reply nm) rows) objs'"
      by (auto simp: list_all2_Cons1)
    from Cons.IH [OF t] True o h show ?thesis by auto
  next
    case False
    with Cons.prems Cons.IH [of objs] show ?thesis by simp
  qed
qed

lemma length_write_back: "length (write_back nm rows objs) = length rows"
  by (induction rows arbitrary: objs) (simp_all split: list.splits)

lemma write_back_unselected:
  "i < length rows \<Longrightarrow> \<not> awaiting_reply nm (rows ! i) \<Longrightarrow> write_back nm rows objs ! i = rows ! i"
proof (induction rows arbitrary: objs i)
  case Nil
  then show ?case by simp
next
  case (Cons r rows)
  then show ?case by (cases i) (auto split: list.splits)
qed

lemma received_at_now:
  "received_at f n1 m = Inr t \<Longrightarrow> \<exists>t'. received_at f n2 m = Inr t'"
  unfolding received_at_def Let_def
  by (cases "dict_get m ''receivedDateTime'' JNull") (auto split: if_splits option.splits)

lemma on_reply_now:
  assumes "on_reply f n1 leads se m = Inr (e1, leads1)"
  shows "\<exists>e2. on_reply f n2 leads se m = Inr (e2, leads1)"
proof -
  from on_reply_Inr [OF assms] obtain t sn where
    t: "received_at f n1 m = Inr t" and sn: "snippet m = Inr sn" by metis
  from received_at_now [OF t] obtain t' where t': "received_at f n2 m = Inr t'" by blast
  have "snd (projr (on_reply f n2 leads se m)) = snd (projr (on_reply f n1 leads se m))"
    by (simp add: on_reply_def t t' sn Let_def split: option.splits)
  moreover have "\<exists>p. on_reply f n2 leads se m = Inr p"
    by (simp add: on_reply_def t' sn Let_def)
  ultimately show ?thesis using assms by (metis prod.collapse snd_conv sum.sel(2))
qed

lemma inbox_loop_now:
  assumes "inbox_loop f n1 leads se msgs = Inr (e1, leads1, c)"
  shows "\<exists>e2. inbox_loop f n2 leads se msgs = Inr (e2, leads1, c)"
  using assms
proof (induction msgs)
  case Nil
  then show ?case by simp
next
  case (Cons m msgs)
  show ?case
  proof (cases "is_reply se m")
    case (Inl a)
    then show ?thesis using Cons.prems by simp
  next
    case (Inr b)
    show ?thesis
    proof (cases b)
      case True
      then obtain l0 where o: "on_reply f n1 leads se m = Inr (e1, l0)"
        and eq: "leads1 = l0" "c = 1"
        using Cons.prems Inr by (auto split: sum.splits)
      from on_reply_now [OF o, of n2] obtain e2 where "on_reply f n2 leads se m = Inr (e2, l0)"
        by blast
      then show ?thesis using eq True Inr by simp
    next
      case False
      then show ?thesis using Cons Inr by simp
    qed
  qed
qed

lemma sent_loop_now:
  assumes "sent_loop f n1 msgs leads ses = Inr (es1, leads1, c)"
  shows "\<exists>es2. sent_loop f n2 msgs leads ses = Inr (es2, leads1, c)"
  using assms
proof (induction ses arbitrary: leads es1 leads1 c)
  case Nil
  then show ?case by simp
next
  case (Cons s ses)
  from Cons.prems obtain e l1 k where
    i: "inbox_loop f n1 leads s msgs = Inr (e, l1, k)"
    by (cases "inbox_loop f n1 leads s msgs") auto
  from Cons.prems i obtain es' l2 n' where
    r: "sent_loop f n1 msgs l1 ses = Inr (es', l2, n')" and es: "leads1 = l2" "c = k + n'"
    by (cases "sent_loop f n1 msgs l1 ses") auto
  from inbox_loop_now [OF i, of n2] obtain e2 where
    i2: "inbox_loop f n2 leads s msgs = Inr (e2, l1, k)" by blast
  from Cons.IH [OF r] obtain es2 where
    r2: "sent_loop f n2 msgs l1 ses = Inr (es2, l2, n')" by blast
  show ?case using i2 r2 es by simp
qed

lemma sent_loop_fails_now:
  assumes "sent_loop f n1 msgs leads ses = Inl err"
  shows "\<exists>err'. sent_loop f n2 msgs leads ses = Inl err'"
proof (cases "sent_loop f n2 msgs leads ses")
  case (Inl a)
  then show ?thesis by blast
next
  case (Inr p)
  then obtain es l c where "sent_loop f n2 msgs leads ses = Inr (es, l, c)"
    by (cases p) auto
  from sent_loop_now [OF this, of n1] assms show ?thesis by simp
qed

lemma awaiting_not_replied:
  "awaiting_reply nm e \<Longrightarrow> reply_status e \<noteq> Some ''replied''"
  by (auto simp: awaiting_reply_def)

lemma check_failed_again:
  assumes "check_email_replies nm f now1 inbox db = (CheckFailed code, db1)"
  shows "\<exists>code'. check_email_replies nm f now2 inbox db = (CheckFailed code', db)"
proof (cases inbox)
  case Raised
  then show ?thesis using assms
    by (auto simp: check_email_replies_def Let_def split: if_splits)
next
  case (Responded sc msgs)
  show ?thesis
  proof (cases "sent_loop f now1 msgs (snd db) (filter (awaiting_reply nm) (fst db))")
    case (Inl err)
    from sent_loop_fails_now [OF this, of now2] obtain err' where
      "sent_loop f now2 msgs (snd db) (filter (awaiting_reply nm) (fst db)) = Inl err'" by blast
    then show ?thesis using assms Responded Inl
      by (auto simp: check_email_replies_def Let_def split: if_splits)
  next
    case (Inr p)
    then show ?thesis using assms Responded
      by (auto simp: check_email_replies_def Let_def split: if_splits prod.splits)
  qed
qed

lemma check_failed_db:
  "check_email_replies nm f now inbox db = (CheckFailed code, db1) \<Longrightarrow> db1 = db"
  by (auto simp: check_email_replies_def Let_def
      split: if_splits inbox_response.splits sum.splits prod.splits)

lemma check_none_db:
  "check_email_replies nm f now inbox db = (NoEmailsToCheck, db1) \<Longrightarrow>
     db1 = db \<and> filter (awaiting_reply nm) (fst db) = []"
  by (auto simp: check_email_replies_def Let_def
      split: if_splits inbox_response.splits sum.splits prod.splits)

lemma check_checked:
  assumes "check_email_replies nm f now inbox db = (Checked u c, db1)"
  obtains msgs objs leads' where "inbox = Responded 200 msgs"
    and "sent_loop f now msgs (snd db) (filter (awaiting_reply nm) (fst db)) = Inr (objs, leads', u)"
    and "db1 = (write_back nm (fst db) objs, leads')"
    and "filter (awaiting_reply nm) (fst db) \<noteq> []"
  using assms
  by (auto simp: check_email_replies_def Let_def
      split: if_splits inbox_response.splits sum.splits prod.splits)

lemma ex_reply: "is_reply example_sent (example_message ''a@x.com'' ''RE: Introduction - Acme'') = Inr True"
  by code_simp

lemma ex_wrong_sender: "is_reply example_sent (example_message ''b@x.com'' ''RE: Introduction - Acme'') = Inr False"
  by code_simp

lemma ex_no_prefix: "is_reply example_sent (example_message ''a@x.com'' ''Introduction - Acme'') = Inr False"
  by code_simp

lemma ex_empty: "is_reply (example_sent\<lparr>recipient_email := Some []\<rparr>) (example_message [] ''RE: Introduction - Acme'') = Inr False"
  by code_simp

lemma ex_empty_spec: "spec_is_reply [] ''RE: Introduction - Acme'' [] ''Introduction - Acme''"
  by code_simp

lemma ex_run1:
  "check_email_replies True example_fromisoformat 900
     (Responded 200 [example_message ''b@x.com'' ''RE: Introduction - Acme'',
                     example_message ''A@X.com'' ''RE: Introduction - Acme''])
     ([example_sent, example_unanswered], [example_lead])
   = (Checked 1 2,
      ([example_sent\<lparr>lead_id := Some 7, reply_status := Some ''replied'', replied_at := Some 500,
           reply_snippet := Some ''Thanks, let us talk.''\<rparr>, example_unanswered],
       [example_lead\<lparr>status := Some ''Connected''\<rparr>]))"
  by code_simp

lemma is_reply_strings:
  assumes "dict_get msg ''from'' (JObj []) = JObj f"
    and "dict_get f ''emailAddress'' (JObj []) = JObj ea"
    and "dict_get ea ''address'' (JStr []) = JStr a"
    and "dict_get msg ''subject'' (JStr []) = JStr s"
  shows "is_reply se msg =
     Inr (str_or (recipient_email se) [] \<noteq> [] \<and>
          spec_is_reply a s (str_or (recipient_email se) []) (str_or (subject se) []))"
proof -
  have l0: "lower r = [] \<longleftrightarrow> r = []" for r
    by (simp add: lower_def)
  show ?thesis
    unfolding is_reply_def Let_def spec_is_reply_def
    using l0 [of "str_or (recipient_email se) []"]
    by (auto simp: assms startswith_prefix str_contains_sublist)
qed

lemma obj_get_Inr: "obj_get v k d = Inr x \<Longrightarrow> \<exists>kv. v = JObj kv \<and> x = dict_get kv k d"
  by (cases v) auto

lemma json_lower_Inr: "json_lower v = Inr x \<Longrightarrow> \<exists>s. v = JStr s \<and> x = lower s"
  by (cases v) auto

lemma is_reply_True_strings:
  assumes "is_reply se msg = Inr True"
  shows "\<exists>f ea a s. dict_get msg ''from'' (JObj []) = JObj f
           \<and> dict_get f ''emailAddress'' (JObj []) = JObj ea
           \<and> dict_get ea ''address'' (JStr []) = JStr a
           \<and> dict_get msg ''subject'' (JStr []) = JStr s"
proof -
  from assms obtain x where x: "obj_get (dict_get msg ''from'' (JObj [])) ''emailAddress'' (JObj []) = Inr x"
    by (cases "obj_get (dict_get msg ''from'' (JObj [])) ''emailAddress'' (JObj [])")
      (simp_all add: is_reply_def)
  from assms x obtain y where y: "obj_get x ''address'' (JStr []) = Inr y"
    by (cases "obj_get x ''address'' (JStr [])") (simp_all add: is_reply_def)
  from assms x y obtain z where z: "json_lower y = Inr z"
    by (cases "json_lower y") (simp_all add: is_reply_def)
  from assms x y z obtain w where w: "json_lower (dict_get msg ''subject'' (JStr [])) = Inr w"
    by (cases "json_lower (dict_get msg ''subject'' (JStr []))")
      (simp_all add: is_reply_def Let_def split: if_splits)
  from obj_get_Inr [OF x] obtain f where f: "dict_get msg ''from'' (JObj []) = JObj f"
    and xf: "x = dict_get f ''emailAddress'' (JObj [])" by blast
  from obj_get_Inr [OF y] obtain ea where ea: "x = JObj ea"
    and ya: "y = dict_get ea ''address'' (JStr [])" by blast
  from json_lower_Inr [OF z] obtain a where a: "y = JStr a" by blast
  from json_lower_Inr [OF w] obtain s where s: "dict_get msg ''subject'' (JStr []) = JStr s" by blast
  have e1: "dict_get f ''emailAddress'' (JObj []) = JObj ea"
    using xf ea by simp
  have e2: "dict_get ea ''address'' (JStr []) = JStr a"
    using ya a by simp
  show ?thesis using f e1 e2 s by blast
qed

text \<open>
  C5, as amended. An inbox message is treated as a reply to a sent email exactly
  when the recipient address of the sent email is not empty, the sender address of
  the message equals it without regard to case, the subject of the message starts
  with "re:" without regard to case, and the subject of the sent email occurs in it
  without regard to case; the sender address and the subject of the message are the
  strings under \<open>from.emailAddress.address\<close> and \<open>subject\<close>, an absent key reading as
  the empty string. The sent email to a@x.com with subject "Introduction - Acme" is
  matched by "RE: Introduction - Acme" from a@x.com, not by the same message from
  b@x.com, and not by a subject without the prefix.
\<close>

theorem reply_rule_nonempty_recipient:
  assumes "s_recipient = str_or (recipient_email se) []"
    and "s_subject = str_or (subject se) []"
  shows "(is_reply se msg = Inr True \<longleftrightarrow>
           (\<exists>f ea m_sender m_subject.
              dict_get msg ''from'' (JObj []) = JObj f
            \<and> dict_get f ''emailAddress'' (JObj []) = JObj ea
            \<and> dict_get ea ''address'' (JStr []) = JStr m_sender
            \<and> dict_get msg ''subject'' (JStr []) = JStr m_subject
            \<and> s_recipient \<noteq> []
            \<and> lower m_sender = lower s_recipient
            \<and> prefix ''re:'' (lower m_subject)
            \<and> sublist (lower s_subject) (lower m_subject)))
       \<and> is_reply example_sent (example_message ''a@x.com'' ''RE: Introduction - Acme'') = Inr True
       \<and> is_reply example_sent (example_message ''b@x.com'' ''RE: Introduction - Acme'') = Inr False
       \<and> is_reply example_sent (example_message ''a@x.com'' ''Introduction - Acme'') = Inr False"
proof -
  have "is_reply se msg = Inr True \<longleftrightarrow>
           (\<exists>f ea m_sender m_subject.
              dict_get msg ''from'' (JObj []) = JObj f
            \<and> dict_get f ''emailAddress'' (JObj []) = JObj ea
            \<and> dict_get ea ''address'' (JStr []) = JStr m_sender
            \<and> dict_get msg ''subject'' (JStr []) = JStr m_subject
            \<and> s_recipient \<noteq> []
            \<and> lower m_sender = lower s_recipient
            \<and> prefix ''re:'' (lower m_subject)
            \<and> sublist (lower s_subject) (lower m_subject))" (is "?L \<longleftrightarrow> ?R")
  proof
    assume l: ?L
    from is_reply_True_strings [OF l] obtain f ea a s where
      h: "dict_get msg ''from'' (JObj []) = JObj f"
         "dict_get f ''emailAddress'' (JObj []) = JObj ea"
         "dict_get ea ''address'' (JStr []) = JStr a"
         "dict_get msg ''subject'' (JStr []) = JStr s" by blast
    from is_reply_strings [OF h, of se] l assms
    have "s_recipient \<noteq> [] \<and> lower a = lower s_recipient \<and> prefix ''re:'' (lower s)
          \<and> sublist (lower s_subject) (lower s)"
      by (simp add: spec_is_reply_def)
    with h show ?R by blast
  next
    assume ?R
    then obtain f ea a s where
      h: "dict_get msg ''from'' (JObj []) = JObj f"
         "dict_get f ''emailAddress'' (JObj []) = JObj ea"
         "dict_get ea ''address'' (JStr []) = JStr a"
         "dict_get msg ''subject'' (JStr []) = JStr s"
      and c: "s_recipient \<noteq> []" "lower a = lower s_recipient" "prefix ''re:'' (lower s)"
         "sublist (lower s_subject) (lower s)" by blast
    from is_reply_strings [OF h, of se] c assms show ?L
      by (simp add: spec_is_reply_def)
  qed
  then show ?thesis using ex_reply ex_wrong_sender ex_no_prefix by blast
qed

theorem reply_rule_nonempty_recipient_witness:
  "is_reply example_sent (example_message ''A@X.COM'' ''Re: introduction - acme (2)'') = Inr True"
proof -
  have h1: "dict_get (example_message ''A@X.COM'' ''Re: introduction - acme (2)'') ''from'' (JObj [])
      = JObj [(''emailAddress'', JObj [(''name'', JStr ''A''), (''address'', JStr ''A@X.COM'')])]"
    by code_simp
  have h2: "dict_get [(''emailAddress'', JObj [(''name'', JStr ''A''), (''address'', JStr ''A@X.COM'')])]
      ''emailAddress'' (JObj []) = JObj [(''name'', JStr ''A''), (''address'', JStr ''A@X.COM'')]"
    by code_simp
  have h3: "dict_get [(''name'', JStr ''A''), (''address'', JStr ''A@X.COM'')] ''address'' (JStr [])
      = JStr ''A@X.COM''"
    by code_simp
  have h4: "dict_get (example_message ''A@X.COM'' ''Re: introduction - acme (2)'') ''subject'' (JStr [])
      = JStr ''Re: introduction - acme (2)''"
    by code_simp
  have h5: "''a@x.com'' = str_or (recipient_email example_sent) []"
    by code_simp
  have h6: "''Introduction - Acme'' = str_or (subject example_sent) []"
    by code_simp
  have c: "''a@x.com'' \<noteq> [] \<and> lower ''A@X.COM'' = lower ''a@x.com''
      \<and> prefix ''re:'' (lower ''Re: introduction - acme (2)'')
      \<and> sublist (lower ''Introduction - Acme'') (lower ''Re: introduction - acme (2)'')"
    by code_simp
  from reply_rule_nonempty_recipient [OF h5 h6,
      of "example_message ''A@X.COM'' ''Re: introduction - acme (2)''"] h1 h2 h3 h4 c
  show ?thesis by blast
qed

text \<open>
  The rule without the first condition fails: a sent email with an empty recipient
  address and a message with an empty sender address satisfy the three conditions of
  the specification, and the code does not count the message as a reply.
\<close>

theorem reply_rule_empty_recipient_counterexample:
  "is_reply (example_sent\<lparr>recipient_email := Some []\<rparr>)
      (example_message [] ''RE: Introduction - Acme'') = Inr False
   \<and> spec_is_reply [] ''RE: Introduction - Acme'' [] ''Introduction - Acme''"
  using ex_empty ex_empty_spec by simp

text \<open>
  The scan for one sent email: the first message that is a reply ends it, whatever
  follows, and when its timestamp and preview can be read the reply is recorded and
  one update is counted.
\<close>

lemma first_match_wins:
  assumes "list_all (\<lambda>m. is_reply se m = Inr False) pre"
    and "is_reply se m = Inr True"
    and "received_at f now m = Inr t"
    and "snippet m = Inr sn"
  shows "\<exists>e leads'.
           inbox_loop f now leads se (pre @ m # post) = Inr (e, leads', 1)
         \<and> reply_status e = Some ''replied''
         \<and> replied_at e = Some t
         \<and> Some t = (case dict_get m ''receivedDateTime'' JNull of
                       JStr s \<Rightarrow> if s = [] then Some now else f (replace_Z s)
                     | _ \<Rightarrow> Some now)
         \<and> reply_snippet e = Some sn
         \<and> sn = (case dict_get m ''bodyPreview'' JNull of JStr s \<Rightarrow> take 500 s | _ \<Rightarrow> [])"
proof -
  obtain e leads' where o: "on_reply f now leads se m = Inr (e, leads')"
    using assms(3,4) by (simp add: on_reply_def Let_def)
  have loop: "inbox_loop f now leads se (pre @ m # post) = Inr (e, leads', 1)"
    using inbox_loop_first_match [OF assms(1,2), of f now leads post] o by simp
  from on_reply_Inr [OF o] assms(3,4)
  have fields: "reply_status e = Some ''replied'' \<and> replied_at e = Some t \<and> reply_snippet e = Some sn"
    by (metis sum.inject(2))
  show ?thesis
    using loop fields received_at_Inr [OF assms(3)] snippet_Inr [OF assms(4)] by blast
qed

lemma first_match_wins_example:
  "\<exists>e leads'.
     inbox_loop example_fromisoformat 900 [example_lead] example_sent
       ([example_message ''b@x.com'' ''RE: Introduction - Acme'']
        @ example_message ''a@x.com'' ''RE: Introduction - Acme''
        # [example_message ''a@x.com'' ''Re: Introduction - Acme, once more''])
       = Inr (e, leads', 1)
     \<and> reply_status e = Some ''replied''
     \<and> replied_at e = Some 500
     \<and> reply_snippet e = Some ''Thanks, let us talk.''"
proof -
  have h1: "list_all (\<lambda>m. is_reply example_sent m = Inr False)
              [example_message ''b@x.com'' ''RE: Introduction - Acme'']"
    using ex_wrong_sender by simp
  have h3: "received_at example_fromisoformat 900
              (example_message ''a@x.com'' ''RE: Introduction - Acme'') = Inr 500"
    by code_simp
  have h4: "snippet (example_message ''a@x.com'' ''RE: Introduction - Acme'')
              = Inr ''Thanks, let us talk.''"
    by code_simp
  from first_match_wins [OF h1 ex_reply h3 h4,
      of "[example_lead]" "[example_message ''a@x.com'' ''Re: Introduction - Acme, once more'']"]
  show ?thesis by blast
qed













lemma rerun_after_success:
  assumes "check_email_replies nm f now1 inbox db = (Checked u c, db1)"
  shows "\<exists>r2. check_email_replies nm f now2 inbox db1 = (r2, db1) \<and> updated r2 = 0"
proof -
  from check_checked [OF assms] obtain msgs objs leads' where
    inbox: "inbox = Responded 200 msgs"
    and loop: "sent_loop f now1 msgs (snd db) (filter (awaiting_reply nm) (fst db)) = Inr (objs, leads', u)"
    and db1: "db1 = (write_back nm (fst db) objs, leads')"
    by blast
  let ?R = "\<lambda>s e. (e = s \<and> list_all (\<lambda>m. is_reply s m = Inr False) msgs)
                  \<or> (reply_status e = Some ''replied'' \<and> estatus e = estatus s)"
  have rel: "list_all2 ?R (filter (awaiting_reply nm) (fst db)) objs"
    using sent_loop_cases [OF loop] .
  have "list_all2 (\<lambda>s e. e = s \<or> \<not> awaiting_reply nm e) (filter (awaiting_reply nm) (fst db)) objs"
    using rel by (rule list_all2_mono) (auto dest: awaiting_not_replied)
  from filter_write_back [OF this]
  have sel: "filter (awaiting_reply nm) (fst db1) = filter (awaiting_reply nm) objs"
    by (simp add: db1)
  have quiet: "list_all (\<lambda>s. list_all (\<lambda>m. is_reply s m = Inr False) msgs)
                 (filter (awaiting_reply nm) objs)"
  proof -
    have "list_all (\<lambda>m. is_reply e m = Inr False) msgs"
      if "e \<in> set objs" and "awaiting_reply nm e" for e
    proof -
      from that(1) obtain i where i: "i < length objs" "objs ! i = e"
        by (auto simp: in_set_conv_nth)
      from list_all2_nthD2 [OF rel i(1)] i(2)
      have "?R (filter (awaiting_reply nm) (fst db) ! i) e" by simp
      then obtain s where "?R s e" by blast
      with that(2) show ?thesis by (auto dest: awaiting_not_replied)
    qed
    then show ?thesis by (simp add: list_all_iff)
  qed
  show ?thesis
  proof (cases "filter (awaiting_reply nm) objs = []")
    case True
    then show ?thesis
      by (simp add: check_email_replies_def sel)
  next
    case False
    have "sent_loop f now2 msgs (snd db1) (filter (awaiting_reply nm) (fst db1))
            = Inr (filter (awaiting_reply nm) (fst db1), snd db1, 0)"
      using sent_loop_no_match [OF quiet] by (simp add: sel)
    then show ?thesis
      using False write_back_same [of nm "fst db1"]
      by (simp add: check_email_replies_def Let_def sel [symmetric] inbox)
  qed
qed

lemma rerun_quiet:
  assumes "check_email_replies nm f now1 inbox db = (r1, db1)"
    and "check_email_replies nm f now2 inbox db1 = (r2, db2)"
  shows "updated r2 = 0 \<and> db2 = db1"
proof (cases r1)
  case NoEmailsToCheck
  with assms(1) have "db1 = db" and "filter (awaiting_reply nm) (fst db) = []"
    using check_none_db by blast+
  then show ?thesis using assms(2) by (simp add: check_email_replies_def)
next
  case (Checked u c)
  from rerun_after_success [OF assms(1) [unfolded Checked], of now2] assms(2)
  show ?thesis by auto
next
  case (CheckFailed code)
  with assms(1) have d: "db1 = db" using check_failed_db by blast
  from check_failed_again [OF assms(1) [unfolded CheckFailed], of now2] assms(2) d
  show ?thesis by auto
qed

lemma only_awaiting_change:
  assumes "check_email_replies nm f now inbox db = (r1, db1)"
  shows "length (fst db1) = length (fst db)"
    and "i < length (fst db) \<Longrightarrow> fst db1 ! i \<noteq> fst db ! i \<Longrightarrow> awaiting_reply nm (fst db ! i)"
proof -
  have "length (fst db1) = length (fst db) \<and>
        (i < length (fst db) \<longrightarrow> fst db1 ! i \<noteq> fst db ! i \<longrightarrow> awaiting_reply nm (fst db ! i))"
  proof (cases r1)
    case NoEmailsToCheck
    with assms check_none_db show ?thesis by blast
  next
    case (Checked u c)
    from check_checked [OF assms [unfolded Checked]] obtain objs leads' where
      "db1 = (write_back nm (fst db) objs, leads')" by blast
    then show ?thesis
      using length_write_back [of nm "fst db" objs] write_back_unselected [of i "fst db" nm objs]
      by auto
  next
    case (CheckFailed code)
    with assms check_failed_db show ?thesis by blast
  qed
  then show "length (fst db1) = length (fst db)"
    and "i < length (fst db) \<Longrightarrow> fst db1 ! i \<noteq> fst db ! i \<Longrightarrow> awaiting_reply nm (fst db ! i)"
    by blast+
qed

text \<open>
  C7. A run of the reply matcher changes only rows of the email table that had status
  "sent" and reply status "no_reply" or null before the run; a row marked "replied"
  is never among the rows a run selects; and a second run on the resulting tables
  with the same inbox reports zero updates and leaves the tables as they are.
\<close>

theorem reply_matcher_rerun:
  assumes "check_email_replies nm f now1 inbox db = (r1, db1)"
    and "check_email_replies nm f now2 inbox db1 = (r2, db2)"
  shows "length (fst db1) = length (fst db)
       \<and> (\<forall>i < length (fst db). fst db1 ! i \<noteq> fst db ! i \<longrightarrow>
             estatus (fst db ! i) = Some ''sent'' \<and>
             (reply_status (fst db ! i) = Some ''no_reply'' \<or> reply_status (fst db ! i) = None))
       \<and> list_all (\<lambda>e. reply_status e \<noteq> Some ''replied'') (filter (awaiting_reply nm) (fst db1))
       \<and> updated r2 = 0
       \<and> db2 = db1"
proof -
  have a: "\<forall>i < length (fst db). fst db1 ! i \<noteq> fst db ! i \<longrightarrow>
             estatus (fst db ! i) = Some ''sent'' \<and>
             (reply_status (fst db ! i) = Some ''no_reply'' \<or> reply_status (fst db ! i) = None)"
  proof (intro allI impI)
    fix i assume "i < length (fst db)" and "fst db1 ! i \<noteq> fst db ! i"
    then have "awaiting_reply nm (fst db ! i)"
      by (rule only_awaiting_change(2) [OF assms(1)])
    then show "estatus (fst db ! i) = Some ''sent'' \<and>
             (reply_status (fst db ! i) = Some ''no_reply'' \<or> reply_status (fst db ! i) = None)"
      by (auto simp: awaiting_reply_def)
  qed
  have b: "list_all (\<lambda>e. reply_status e \<noteq> Some ''replied'') (filter (awaiting_reply nm) (fst db1))"
    by (auto simp: list_all_iff dest: awaiting_not_replied)
  show ?thesis
    using only_awaiting_change(1) [OF assms(1)] a b rerun_quiet [OF assms] by blast
qed

theorem reply_matcher_rerun_witness:
  "updated (fst (check_email_replies True example_fromisoformat 950
     (Responded 200 [example_message ''b@x.com'' ''RE: Introduction - Acme'',
                     example_message ''A@X.com'' ''RE: Introduction - Acme''])
     ([example_sent\<lparr>lead_id := Some 7, reply_status := Some ''replied'', replied_at := Some 500,
           reply_snippet := Some ''Thanks, let us talk.''\<rparr>, example_unanswered],
       [example_lead\<lparr>status := Some ''Connected''\<rparr>]))) = 0
   \<and> snd (check_email_replies True example_fromisoformat 950
     (Responded 200 [example_message ''b@x.com'' ''RE: Introduction - Acme'',
                     example_message ''A@X.com'' ''RE: Introduction - Acme''])
     ([example_sent\<lparr>lead_id := Some 7, reply_status := Some ''replied'', replied_at := Some 500,
           reply_snippet := Some ''Thanks, let us talk.''\<rparr>, example_unanswered],
       [example_lead\<lparr>status := Some ''Connected''\<rparr>]))
     = ([example_sent\<lparr>lead_id := Some 7, reply_status := Some ''replied'', replied_at := Some 500,
           reply_snippet := Some ''Thanks, let us talk.''\<rparr>, example_unanswered],
       [example_lead\<lparr>status := Some ''Connected''\<rparr>])"
  using reply_matcher_rerun [OF ex_run1 prod.collapse [symmetric], of 950]
  by blast

section \<open>Sending a generated email\<close>

lemma get_email_replace:
  "get_email rows (eid e) = Some r \<Longrightarrow> get_email (replace_email rows e) (eid e) = Some e"
  by (induction rows) (auto simp: get_email_def)

lemma get_email_eid: "get_email rows i = Some e \<Longrightarrow> eid e = i"
  by (auto simp: get_email_def find_Some_iff)

lemma capture_fields:
  "eid (capture_message_id lookup e) = eid e"
  "estatus (capture_message_id lookup e) = estatus e"
  "sent_at (capture_message_id lookup e) = sent_at e"
  "reply_status (capture_message_id lookup e) = reply_status e"
  by (simp_all add: capture_message_id_def split: option.splits lookup_response.splits list.splits)

lemma link_fields:
  "eid (link_lead leads a e) = eid e"
  "estatus (link_lead leads a e) = estatus e"
  "sent_at (link_lead leads a e) = sent_at e"
  "reply_status (link_lead leads a e) = reply_status e"
  by (simp_all add: link_lead_def split: option.splits)

lemma fst_send_accepted:
  "fst (send_accepted lookup now a e db) =
     replace_email (fst db)
       (link_lead (fst (snd db)) a
          (capture_message_id lookup
             (e\<lparr>estatus := Some ''sent'', sent_at := Some now, reply_status := Some ''no_reply''\<rparr>)))"
  by (simp add: send_accepted_def Let_def split: option.splits)

text \<open>
  C10. \<open>send_email\<close> answers 400, posts nothing to the provider and changes nothing
  when the status of the email is neither "approved" nor "pending_review", so in
  particular for "draft", "rejected" and "sent"; an email in "pending_review" with
  a recipient passes the check, and with a usable token and an accepted request it
  is posted to the recipient, the bookkeeping of an accepted send is committed, and
  its row is marked "sent" with reply status "no_reply".
\<close>

theorem send_email_status_guard:
  assumes "get_email (fst db) i = Some e"
  shows "(estatus e \<noteq> Some ''approved'' \<and> estatus e \<noteq> Some ''pending_review'' \<longrightarrow>
            send_email token response lookup now db i = (400, [], db))
       \<and> (estatus e \<in> {Some ''draft'', Some ''rejected'', Some ''sent''} \<longrightarrow>
            send_email token response lookup now db i = (400, [], db))
       \<and> (estatus e = Some ''pending_review'' \<and> recipient_email e = Some a \<and> a \<noteq> [] \<longrightarrow>
            send_email TokenReady (SendStatus 202) lookup now db i =
              (200, [(a, subject e)], send_accepted lookup now a e db)
            \<and> (\<exists>e'. get_email (fst (send_accepted lookup now a e db)) i = Some e'
                   \<and> estatus e' = Some ''sent'' \<and> sent_at e' = Some now
                   \<and> reply_status e' = Some ''no_reply''))"
proof -
  have guard: "send_email token response lookup now db i = (400, [], db)"
    if "estatus e \<noteq> Some ''approved''" and "estatus e \<noteq> Some ''pending_review''"
    using assms that by (simp add: send_email_def)
  have sent: "send_email TokenReady (SendStatus 202) lookup now db i =
              (200, [(a, subject e)], send_accepted lookup now a e db)"
    if "estatus e = Some ''pending_review''" and "recipient_email e = Some a" and "a \<noteq> []"
    using assms that by (simp add: send_email_def str_or_def)
  let ?e' = "link_lead (fst (snd db)) a
          (capture_message_id lookup
             (e\<lparr>estatus := Some ''sent'', sent_at := Some now, reply_status := Some ''no_reply''\<rparr>))"
  have id: "eid ?e' = i"
    using get_email_eid [OF assms] by (simp add: link_fields capture_fields)
  have "get_email (replace_email (fst db) ?e') (eid ?e') = Some ?e'"
    using assms id by (intro get_email_replace [of _ _ e]) simp
  then have row: "get_email (fst (send_accepted lookup now a e db)) i = Some ?e'"
    using id by (simp add: fst_send_accepted)
  have fields: "estatus ?e' = Some ''sent'' \<and> sent_at ?e' = Some now
      \<and> reply_status ?e' = Some ''no_reply''"
    by (simp add: link_fields capture_fields)
  show ?thesis
    using guard sent row fields by auto
qed

lemma ex_send:
  "send_email TokenReady (SendStatus 202) (LookupStatus 200 [[(''id'', JStr ''AAMk'')]]) 900
     ([example_sent\<lparr>estatus := Some ''pending_review''\<rparr>], [example_lead], []) 1
   = (200, [(''a@x.com'', Some ''Introduction - Acme'')],
      ([example_sent\<lparr>lead_id := Some 7, estatus := Some ''sent'', sent_at := Some 900,
           microsoft_message_id := Some ''AAMk''\<rparr>],
       [example_lead\<lparr>activity_count := Some 3\<rparr>],
       [sent_log (Some 7) ''Subject: Introduction - Acme | To: a@x.com'']))"
  by code_simp

theorem send_email_status_guard_witness:
  "send_email TokenReady (SendStatus 202) (LookupStatus 200 [[(''id'', JStr ''AAMk'')]]) 900
     ([example_sent], [example_lead], []) 1
     = (400, [], ([example_sent], [example_lead], []))
   \<and> send_email TokenReady (SendStatus 202) (LookupStatus 200 [[(''id'', JStr ''AAMk'')]]) 900
       ([example_sent\<lparr>estatus := Some ''pending_review''\<rparr>], [example_lead], []) 1
     = (200, [(''a@x.com'', Some ''Introduction - Acme'')],
        ([example_sent\<lparr>lead_id := Some 7, estatus := Some ''sent'', sent_at := Some 900,
             microsoft_message_id := Some ''AAMk''\<rparr>],
         [example_lead\<lparr>activity_count := Some 3\<rparr>],
         [sent_log (Some 7) ''Subject: Introduction - Acme | To: a@x.com'']))"
proof -
  have h1: "get_email (fst ([example_sent], [example_lead], [])) 1 = Some example_sent"
    by code_simp
  have s1: "estatus example_sent \<in> {Some ''draft'', Some ''rejected'', Some ''sent''}"
    by (simp add: example_sent_def)
  from send_email_status_guard [OF h1, where token = TokenReady and response = "SendStatus 202"
      and lookup = "LookupStatus 200 [[(''id'', JStr ''AAMk'')]]" and now = 900] s1
  have a: "send_email TokenReady (SendStatus 202) (LookupStatus 200 [[(''id'', JStr ''AAMk'')]]) 900
     ([example_sent], [example_lead], []) 1 = (400, [], ([example_sent], [example_lead], []))"
    by blast
  have h2: "get_email (fst ([example_sent\<lparr>estatus := Some ''pending_review''\<rparr>], [example_lead], [])) 1
      = Some (example_sent\<lparr>estatus := Some ''pending_review''\<rparr>)"
    by code_simp
  have s2: "estatus (example_sent\<lparr>estatus := Some ''pending_review''\<rparr>) = Some ''pending_review''
      \<and> recipient_email (example_sent\<lparr>estatus := Some ''pending_review''\<rparr>) = Some ''a@x.com''
      \<and> ''a@x.com'' \<noteq> []"
    by (simp add: example_sent_def)
  from send_email_status_guard [OF h2, where a = "''a@x.com''" and now = 900
      and lookup = "LookupStatus 200 [[(''id'', JStr ''AAMk'')]]"] s2
  have b: "fst (send_email TokenReady (SendStatus 202) (LookupStatus 200 [[(''id'', JStr ''AAMk'')]]) 900
       ([example_sent\<lparr>estatus := Some ''pending_review''\<rparr>], [example_lead], []) 1) = 200"
    by simp
  show ?thesis using a b ex_send by simp
qed

end
